theory Spec2Isabelle
  imports Main "HOL-Library.AList" "HOL-Library.Multiset"
begin

section \<open>The search subsystem of the bckt3 theme (minisearch.js)\<close>

text \<open>
  The file \<^verbatim>\<open>themes/bckt3/assets/js/minisearch.js\<close> holds two scripts: the class
  \<^verbatim>\<open>MiniSearch\<close> (an inverted index over a fixed list of document fields) and the
  search controller that binds it to the page. The definitions below follow the
  JavaScript function by function and keep its names.

  Conventions of the embedding.
  \<^item> A JavaScript string is a \<open>string\<close>; letters, digits, white space and case are
    those of ASCII.
  \<^item> A JavaScript number is an \<open>int\<close> (finite values only; the comparators of the
    source use nothing but the sign of a difference).
  \<^item> A \<^verbatim>\<open>Map\<close> is an association list in insertion order: \<open>map_of\<close> is
    \<^verbatim>\<open>get\<close>, \<open>AList.update\<close> is \<^verbatim>\<open>set\<close> (an existing key keeps its place, a
    new key goes to the end). A \<^verbatim>\<open>Set\<close> is a list without repetition, in insertion
    order.
  \<^item> An exception is the left summand of a result; mutation of \<^verbatim>\<open>this\<close> is state
    passing.
\<close>

subsection \<open>Values and documents\<close>

text \<open>
  A document is an object with the attributes of the search index payload. Every
  attribute is optional: \<open>None\<close> stands for an attribute that is \<^verbatim>\<open>undefined\<close> or
  \<^verbatim>\<open>null\<close>. For \<open>timestamp\<close>, \<open>None\<close> is any value that is not a number, and for
  \<open>tags\<close> any value that is not an array (the source tests nothing else of them).
  The attribute \<^verbatim>\<open>id\<close> is called \<open>doc_id\<close> here. The payload names no attribute
  \<^verbatim>\<open>score\<close>, but neither \<^verbatim>\<open>add\<close> nor the controller removes one: \<open>own_score\<close> is
  the number that a document carries under that name, if it carries one.
\<close>

record document =
  doc_id :: "string option"
  title :: "string option"
  content :: "string option"
  excerpt :: "string option"
  tags :: "string list option"
  tags_text :: "string option"
  type :: "string option"
  language :: "string option"
  date_iso :: "string option"
  date_display :: "string option"
  url :: "string option"
  timestamp :: "int option"
  payload :: "(string \<times> string) list option"
  own_score :: "int option"

text \<open>What a caller may pass where a document is expected.\<close>

datatype jsvalue =
  JUndefined
  | JNull
  | JBoolean bool
  | JNumber int
  | JString string
  | JObject document

fun truthy :: "jsvalue \<Rightarrow> bool" where
  "truthy JUndefined = False"
| "truthy JNull = False"
| "truthy (JBoolean b) = b"
| "truthy (JNumber n) = (n \<noteq> 0)"
| "truthy (JString s) = (s \<noteq> [])"
| "truthy (JObject d) = True"

fun typeof :: "jsvalue \<Rightarrow> string" where
  "typeof JUndefined = ''undefined''"
| "typeof JNull = ''object''"
| "typeof (JBoolean b) = ''boolean''"
| "typeof (JNumber n) = ''number''"
| "typeof (JString s) = ''string''"
| "typeof (JObject d) = ''object''"

text \<open>The value of \<^verbatim>\<open>document[field]\<close>, for a field given by name.\<close>

datatype fieldvalue =
  FString string
  | FArray "string list"
  | FNumber int
  | FObject

definition field_value :: "document \<Rightarrow> string \<Rightarrow> fieldvalue option" where
  "field_value d field =
     (if field = ''id'' then map_option FString (doc_id d)
      else if field = ''title'' then map_option FString (title d)
      else if field = ''content'' then map_option FString (content d)
      else if field = ''excerpt'' then map_option FString (excerpt d)
      else if field = ''tags'' then map_option FArray (tags d)
      else if field = ''tags_text'' then map_option FString (tags_text d)
      else if field = ''type'' then map_option FString (type d)
      else if field = ''language'' then map_option FString (language d)
      else if field = ''date_iso'' then map_option FString (date_iso d)
      else if field = ''date_display'' then map_option FString (date_display d)
      else if field = ''url'' then map_option FString (url d)
      else if field = ''timestamp'' then map_option FNumber (timestamp d)
      else if field = ''payload'' then map_option (\<lambda>p. FObject) (payload d)
      else if field = ''score'' then map_option FNumber (own_score d)
      else None)"

subsection \<open>Strings\<close>

fun join :: "string \<Rightarrow> string list \<Rightarrow> string" where
  "join sep [] = []"
| "join sep [x] = x"
| "join sep (x # y # ys) = x @ sep @ join sep (y # ys)"

definition digit :: "nat \<Rightarrow> char" where
  "digit n = ''0123456789'' ! (n mod 10)"

fun decimal :: "nat \<Rightarrow> string" where
  "decimal n = (if n < 10 then [digit n] else decimal (n div 10) @ [digit n])"

declare decimal.simps [simp del]

definition number_toString :: "int \<Rightarrow> string" where
  "number_toString n = (if n < 0 then CHR ''-'' # decimal (nat (- n)) else decimal (nat n))"

text \<open>\<^verbatim>\<open>asArray(value).join(' ')\<close>: an array is joined, any other value is the
  only element of a one-element array and is converted to a string.\<close>

fun asArray_join :: "fieldvalue \<Rightarrow> string" where
  "asArray_join (FString s) = s"
| "asArray_join (FArray xs) = join '' '' xs"
| "asArray_join (FNumber n) = number_toString n"
| "asArray_join FObject = ''[object Object]''"

definition toLowerCase_char :: "char \<Rightarrow> char" where
  "toLowerCase_char c =
     (case map_of (zip ''ABCDEFGHIJKLMNOPQRSTUVWXYZ'' ''abcdefghijklmnopqrstuvwxyz'') c of
        None \<Rightarrow> c
      | Some l \<Rightarrow> l)"

definition toLowerCase :: "string \<Rightarrow> string" where
  "toLowerCase s = map toLowerCase_char s"

text \<open>The character class \<^verbatim>\<open>[\p{L}\p{N}]\<close>, and \<^verbatim>\<open>[a-z0-9]\<close> of the fallback.\<close>

definition letter_or_number :: "char \<Rightarrow> bool" where
  "letter_or_number c =
     (let n = (of_char c :: nat)
      in (97 \<le> n \<and> n \<le> 122) \<or> (65 \<le> n \<and> n \<le> 90) \<or> (48 \<le> n \<and> n \<le> 57))"

definition lower_or_digit :: "char \<Rightarrow> bool" where
  "lower_or_digit c =
     (let n = (of_char c :: nat) in (97 \<le> n \<and> n \<le> 122) \<or> (48 \<le> n \<and> n \<le> 57))"

text \<open>\<^verbatim>\<open>text.match(/[...]+/g)\<close>: the maximal runs of characters of the class, from
  left to right; \<open>None\<close> is the \<^verbatim>\<open>null\<close> that \<^verbatim>\<open>match\<close> returns when there is no
  run. The second argument of \<open>runs\<close> is the run being read.\<close>

fun runs :: "(char \<Rightarrow> bool) \<Rightarrow> string \<Rightarrow> string \<Rightarrow> string list" where
  "runs P run [] = (if run = [] then [] else [run])"
| "runs P run (c # cs) =
     (if P c then runs P (run @ [c]) cs
      else (if run = [] then [] else [run]) @ runs P [] cs)"

definition match_all :: "(char \<Rightarrow> bool) \<Rightarrow> string \<Rightarrow> string list option" where
  "match_all P text = (let ms = runs P [] text in if ms = [] then None else Some ms)"

subsection \<open>The class MiniSearch\<close>

type_synonym docMap = "(string \<times> nat) list"

record state =
  field_names :: "string list"
  invertedIndex :: "(string \<times> docMap) list"
  documents :: "(string \<times> document) list"

text \<open>The only exception of the class:
  \<^verbatim>\<open>Error('MiniSearch: document is missing id field')\<close>.\<close>

datatype error = MissingId

text \<open>The constructor; \<open>None\<close> is an \<^verbatim>\<open>options.fields\<close> that is not an array. The
  member \<^verbatim>\<open>fields\<close> is called \<open>field_names\<close> here.\<close>

definition constructor :: "string list option \<Rightarrow> state" where
  "constructor options_fields =
     \<lparr>field_names = (case options_fields of Some fs \<Rightarrow> fs | None \<Rightarrow> []),
      invertedIndex = [],
      documents = []\<rparr>"

text \<open>\<^verbatim>\<open>tokenize(raw)\<close>; \<open>None\<close> is a \<^verbatim>\<open>raw\<close> that is \<^verbatim>\<open>null\<close> or
  \<^verbatim>\<open>undefined\<close>.\<close>

definition tokenize :: "string option \<Rightarrow> string list" where
  "tokenize raw =
     (case raw of
        None \<Rightarrow> []
      | Some r \<Rightarrow>
          if r = [] then []
          else
            let text = toLowerCase r;
                tokens = (case match_all letter_or_number text of
                            Some ts \<Rightarrow> ts
                          | None \<Rightarrow> (case match_all lower_or_digit text of
                                       Some ts \<Rightarrow> ts
                                     | None \<Rightarrow> []))
            in map toLowerCase tokens)"

text \<open>The body of the loop over the tokens of one field value in \<^verbatim>\<open>add\<close>.\<close>

definition count_token :: "string \<Rightarrow> string \<Rightarrow> (string \<times> docMap) list \<Rightarrow> (string \<times> docMap) list" where
  "count_token i token idx =
     (let docMap = (case map_of idx token of Some m \<Rightarrow> m | None \<Rightarrow> [])
      in AList.update token
           (AList.update i ((case map_of docMap i of Some c \<Rightarrow> c | None \<Rightarrow> 0) + 1) docMap)
           idx)"

text \<open>The body of the loop over the configured fields in \<^verbatim>\<open>add\<close>.\<close>

definition index_field :: "string \<Rightarrow> document \<Rightarrow> string \<Rightarrow> (string \<times> docMap) list \<Rightarrow> (string \<times> docMap) list" where
  "index_field i d field idx =
     (case field_value d field of
        None \<Rightarrow> idx
      | Some v \<Rightarrow> fold (count_token i) (tokenize (Some (asArray_join v))) idx)"

definition add :: "state \<Rightarrow> jsvalue \<Rightarrow> error + state" where
  "add s document =
     (if \<not> truthy document \<or> typeof document \<noteq> ''object'' then Inr s
      else case document of
        JObject d \<Rightarrow>
          (case doc_id d of
             None \<Rightarrow> Inl MissingId
           | Some i \<Rightarrow>
               Inr (s\<lparr>documents := AList.update i d (documents s),
                      invertedIndex := fold (index_field i d) (field_names s) (invertedIndex s)\<rparr>))
      | _ \<Rightarrow> Inr s)"

text \<open>\<^verbatim>\<open>addAll(documents)\<close>; \<open>None\<close> is an argument that is not an array. The
  result is the exception thrown, if any, and the state the object is left in.\<close>

fun addAll_loop :: "state \<Rightarrow> jsvalue list \<Rightarrow> error option \<times> state" where
  "addAll_loop s [] = (None, s)"
| "addAll_loop s (document # rest) =
     (case add s document of
        Inl e \<Rightarrow> (Some e, s)
      | Inr s' \<Rightarrow> addAll_loop s' rest)"

definition addAll :: "state \<Rightarrow> jsvalue list option \<Rightarrow> error option \<times> state" where
  "addAll s docs = (case docs of None \<Rightarrow> (None, s) | Some ds \<Rightarrow> addAll_loop s ds)"

text \<open>\<^verbatim>\<open>token.startsWith(term)\<close>.\<close>

fun startsWith :: "string \<Rightarrow> string \<Rightarrow> bool" where
  "startsWith token [] = True"
| "startsWith [] (c # cs) = False"
| "startsWith (t # ts) (c # cs) = (t = c \<and> startsWith ts cs)"

text \<open>A match is the pair of \<^verbatim>\<open>token\<close> and \<^verbatim>\<open>docs\<close>.\<close>

type_synonym match = "string \<times> docMap"

definition lookupTerm :: "state \<Rightarrow> string \<Rightarrow> bool \<Rightarrow> match list" where
  "lookupTerm s term prefix =
     (if \<not> prefix then
        (case map_of (invertedIndex s) term of
           Some entry \<Rightarrow> [(term, entry)]
         | None \<Rightarrow> [])
      else filter (\<lambda>(token, docs). startsWith token term) (invertedIndex s))"

text \<open>\<^verbatim>\<open>ids.add(docId)\<close> on a \<^verbatim>\<open>Set\<close>.\<close>

definition set_add :: "'a \<Rightarrow> 'a list \<Rightarrow> 'a list" where
  "set_add x xs = (if x \<in> set xs then xs else xs @ [x])"

text \<open>The set \<^verbatim>\<open>ids\<close> that \<^verbatim>\<open>intersection\<close> builds for one group.\<close>

definition group_ids :: "match list \<Rightarrow> string list" where
  "group_ids grp = fold (\<lambda>match ids. fold set_add (map fst (snd match)) ids) grp []"

text \<open>The loop of \<^verbatim>\<open>intersection\<close>; \<open>None\<close> is the accumulator \<^verbatim>\<open>null\<close>. The loop
  is left as soon as the accumulator is empty.\<close>

fun intersection_loop :: "string list option \<Rightarrow> match list list \<Rightarrow> string list option" where
  "intersection_loop accumulator [] = accumulator"
| "intersection_loop accumulator (grp # rest) =
     (let ids = group_ids grp;
          next_ids = (case accumulator of
                        None \<Rightarrow> ids
                      | Some acc \<Rightarrow> filter (\<lambda>i. i \<in> set ids) acc)
      in if length next_ids = 0 then Some next_ids
         else intersection_loop (Some next_ids) rest)"

definition intersection :: "match list list \<Rightarrow> string list" where
  "intersection matchGroups =
     (case intersection_loop None matchGroups of Some acc \<Rightarrow> acc | None \<Rightarrow> [])"

definition scoreDocument :: "string \<Rightarrow> match list list \<Rightarrow> nat" where
  "scoreDocument i matchGroups =
     fold (\<lambda>grp sc.
             fold (\<lambda>match sc.
                     (case map_of (snd match) i of
                        Some c \<Rightarrow> if c \<noteq> 0 then sc + c else sc
                      | None \<Rightarrow> sc))
                  grp sc)
          matchGroups 0"

text \<open>A result is \<^verbatim>\<open>Object.assign({ score }, document)\<close>: the object that holds
  the computed score, with the attributes of the document assigned over it. A
  document that carries a score of its own therefore keeps it, and the computed
  score is the score of the result only when the document has none. In a result,
  \<open>own_score\<close> still tells whether its document carried a score.\<close>

record result = document +
  score :: int

definition with_score :: "int \<Rightarrow> document \<Rightarrow> result" where
  "with_score sc d =
     document.extend d
       (result.fields (case own_score d of None \<Rightarrow> sc | Some own \<Rightarrow> own))"

text \<open>\<^verbatim>\<open>Array.prototype.sort\<close> with a comparison function: the sort is stable, and
  \<open>a\<close> stays before \<open>b\<close> unless the comparison of \<open>a\<close> with \<open>b\<close> is positive. For
  a consistent comparison function, as all those of the source are on finite
  numbers, the result is the one of this insertion sort.\<close>

fun sort_insert :: "('a \<Rightarrow> 'a \<Rightarrow> int) \<Rightarrow> 'a \<Rightarrow> 'a list \<Rightarrow> 'a list" where
  "sort_insert cmp a [] = [a]"
| "sort_insert cmp a (b # bs) =
     (if cmp a b \<le> 0 then a # b # bs else b # sort_insert cmp a bs)"

fun array_sort :: "('a \<Rightarrow> 'a \<Rightarrow> int) \<Rightarrow> 'a list \<Rightarrow> 'a list" where
  "array_sort cmp [] = []"
| "array_sort cmp (a # as) = sort_insert cmp a (array_sort cmp as)"

text \<open>\<^verbatim>\<open>typeof a.timestamp === 'number' ? a.timestamp : 0\<close>.\<close>

definition timestamp_or_0 :: "'a document_scheme \<Rightarrow> int" where
  "timestamp_or_0 a = (case timestamp a of Some t \<Rightarrow> t | None \<Rightarrow> 0)"

text \<open>The comparison function of the sort in \<^verbatim>\<open>search\<close>.\<close>

definition compare_results :: "result \<Rightarrow> result \<Rightarrow> int" where
  "compare_results a b =
     (if score b \<noteq> score a then score b - score a
      else
        let left = timestamp_or_0 a;
            right = timestamp_or_0 b
        in right - left)"

text \<open>The comparison function of the sort in \<^verbatim>\<open>collectAll\<close>.\<close>

definition compare_timestamps :: "result \<Rightarrow> result \<Rightarrow> int" where
  "compare_timestamps a b =
     (let left = timestamp_or_0 a;
          right = timestamp_or_0 b
      in right - left)"

text \<open>\<^verbatim>\<open>filterFn && !filterFn(document)\<close>; \<open>None\<close> is the \<^verbatim>\<open>filterFn\<close> that is
  \<^verbatim>\<open>null\<close>.\<close>

definition rejected :: "(document \<Rightarrow> bool) option \<Rightarrow> document \<Rightarrow> bool" where
  "rejected filterFn d = (case filterFn of None \<Rightarrow> False | Some f \<Rightarrow> \<not> f d)"

fun collectAll_loop :: "(document \<Rightarrow> bool) option \<Rightarrow> document list \<Rightarrow> result list" where
  "collectAll_loop filterFn [] = []"
| "collectAll_loop filterFn (d # ds) =
     (if rejected filterFn d then collectAll_loop filterFn ds
      else with_score 0 d # collectAll_loop filterFn ds)"

definition collectAll :: "state \<Rightarrow> (document \<Rightarrow> bool) option \<Rightarrow> result list" where
  "collectAll s filterFn =
     array_sort compare_timestamps (collectAll_loop filterFn (map snd (documents s)))"

text \<open>The loop of \<^verbatim>\<open>search\<close> over the candidate ids, which fills \<^verbatim>\<open>results\<close>.\<close>

fun search_loop ::
  "state \<Rightarrow> (document \<Rightarrow> bool) option \<Rightarrow> match list list \<Rightarrow> string list \<Rightarrow> result list" where
  "search_loop s filterFn matchGroups [] = []"
| "search_loop s filterFn matchGroups (i # ids) =
     (case map_of (documents s) i of
        None \<Rightarrow> search_loop s filterFn matchGroups ids
      | Some d \<Rightarrow>
          if rejected filterFn d then search_loop s filterFn matchGroups ids
          else with_score (int (scoreDocument i matchGroups)) d
                 # search_loop s filterFn matchGroups ids)"

text \<open>\<^verbatim>\<open>search(query, options)\<close>. The arguments \<open>filterFn\<close> and \<open>enablePrefix\<close> are
  the two constants the source derives from \<^verbatim>\<open>options\<close>: the filter (\<open>None\<close> when
  \<^verbatim>\<open>options.filter\<close> is not a function) and \<^verbatim>\<open>Boolean(options.prefix)\<close>. The query
  is \<open>None\<close> when it is \<^verbatim>\<open>null\<close> or \<^verbatim>\<open>undefined\<close>.\<close>

definition search ::
  "state \<Rightarrow> string option \<Rightarrow> (document \<Rightarrow> bool) option \<Rightarrow> bool \<Rightarrow> result list" where
  "search s query filterFn enablePrefix =
     (let terms = tokenize query
      in if length terms = 0 then collectAll s filterFn
         else
           let matchGroups = map (\<lambda>term. lookupTerm s term enablePrefix) terms
           in if list_ex (\<lambda>grp. length grp = 0) matchGroups then []
              else
                let candidateIds = intersection matchGroups
                in if length candidateIds = 0 then []
                   else array_sort compare_results
                          (search_loop s filterFn matchGroups candidateIds))"

subsection \<open>The search controller\<close>

text \<open>The object without attributes; reading an attribute of a primitive value
  gives \<^verbatim>\<open>undefined\<close> as well.\<close>

definition no_attributes :: document where
  "no_attributes =
     \<lparr>doc_id = None, title = None, content = None, excerpt = None, tags = None,
      tags_text = None, type = None, language = None, date_iso = None,
      date_display = None, url = None, timestamp = None, payload = None,
      own_score = None\<rparr>"

fun attributes :: "jsvalue \<Rightarrow> document" where
  "attributes (JObject d) = d"
| "attributes v = no_attributes"

text \<open>The four facet selects of \<^verbatim>\<open>filterElements\<close>: \<open>None\<close> is a select that the
  page does not have, \<open>Some v\<close> one whose current value is \<open>v\<close>.\<close>

record filterElements =
  language_select :: "string option"
  type_select :: "string option"
  tag_select :: "string option"
  year_select :: "string option"

text \<open>\<^verbatim>\<open>element && element.value\<close> used as a condition: the select is there and its
  value is not the empty string.\<close>

definition selected :: "string option \<Rightarrow> bool" where
  "selected e = (case e of None \<Rightarrow> False | Some v \<Rightarrow> v \<noteq> [])"

text \<open>\<^verbatim>\<open>x || ''\<close> for an attribute that is a string when present.\<close>

definition or_empty :: "string option \<Rightarrow> string" where
  "or_empty x = (case x of None \<Rightarrow> [] | Some v \<Rightarrow> v)"

definition filterDocument :: "filterElements \<Rightarrow> jsvalue \<Rightarrow> bool" where
  "filterDocument fe doc =
     (if \<not> truthy doc then False
      else
        let d = attributes doc;
            language_value = language_select fe;
            type_value = type_select fe;
            tag_value = tag_select fe;
            year_value = year_select fe
        in if selected language_value \<and> language d \<noteq> language_value then False
           else if selected type_value \<and> or_empty (type d) \<noteq> or_empty type_value then False
           else if selected tag_value
                   \<and> \<not> (case tags d of
                           None \<Rightarrow> False
                         | Some ts \<Rightarrow> or_empty tag_value \<in> set ts) then False
           else if selected year_value then
             (let docYear = (case date_iso d of
                               None \<Rightarrow> []
                             | Some v \<Rightarrow> if v \<noteq> [] then take 4 v else [])
              in if docYear \<noteq> or_empty year_value then False else True)
           else True)"

definition escape_char :: "char \<Rightarrow> string" where
  "escape_char ch =
     (if ch = CHR ''&'' then ''&amp;''
      else if ch = CHR ''<'' then ''&lt;''
      else if ch = CHR ''>'' then ''&gt;''
      else if ch = CHR 0x22 then ''&quot;''
      else if ch = CHR 0x27 then ''&#39;''
      else [ch])"

definition escapeHtml :: "string \<Rightarrow> string" where
  "escapeHtml v = concat (map escape_char v)"

definition white_space :: "char \<Rightarrow> bool" where
  "white_space c = (c \<in> set [CHR 0x09, CHR 0x0A, CHR 0x0B, CHR 0x0C, CHR 0x0D, CHR 0x20])"

definition trim :: "string \<Rightarrow> string" where
  "trim s = rev (dropWhile white_space (rev (dropWhile white_space s)))"

text \<open>A match of the pattern \<^verbatim>\<open>new RegExp(`(${escapeRegex(token)})`, 'gi')\<close> at the
  start of a text: \<^verbatim>\<open>escapeRegex\<close> makes every character of the token stand for
  itself, and the flag \<^verbatim>\<open>i\<close> ignores case.\<close>

fun matches_at :: "string \<Rightarrow> string \<Rightarrow> bool" where
  "matches_at [] text = True"
| "matches_at (t # ts) [] = False"
| "matches_at (t # ts) (c # cs) =
     (toLowerCase_char t = toLowerCase_char c \<and> matches_at ts cs)"

text \<open>\<^verbatim>\<open>highlighted.replace(pattern, '<mark>$1</mark>')\<close>: the matches are taken
  from left to right and do not overlap; the search goes on behind a match. The
  empty pattern, which \<^verbatim>\<open>filter(Boolean)\<close> keeps away, matches at every position.\<close>

fun replace_pattern :: "string \<Rightarrow> string \<Rightarrow> string" where
  "replace_pattern [] text = concat (map (\<lambda>c. ''<mark></mark>'' @ [c]) text) @ ''<mark></mark>''"
| "replace_pattern (t # ts) [] = []"
| "replace_pattern (t # ts) (c # cs) =
     (if matches_at (t # ts) (c # cs)
      then ''<mark>'' @ c # take (length ts) cs @ ''</mark>''
             @ replace_pattern (t # ts) (drop (length ts) cs)
      else c # replace_pattern (t # ts) cs)"

text \<open>The comparison function of the sort in \<^verbatim>\<open>highlightText\<close>.\<close>

definition compare_lengths :: "string \<Rightarrow> string \<Rightarrow> int" where
  "compare_lengths a b = int (length b) - int (length a)"

text \<open>\<^verbatim>\<open>highlightText(text, tokens)\<close>; \<open>None\<close> is an argument that is \<^verbatim>\<open>null\<close> or
  \<^verbatim>\<open>undefined\<close>.\<close>

definition highlightText :: "string option \<Rightarrow> string list option \<Rightarrow> string" where
  "highlightText text tokens =
     (let source = or_empty text
      in case tokens of
           None \<Rightarrow> escapeHtml source
         | Some ts \<Rightarrow>
             if trim source = [] \<or> length ts = 0 then escapeHtml source
             else
               let sorted = array_sort compare_lengths (filter (\<lambda>t. t \<noteq> []) ts)
               in fold replace_pattern sorted (escapeHtml source))"

subsection \<open>Auxiliary notions for the properties\<close>


text \<open>The tokens that \<^verbatim>\<open>add\<close> counts for a document, in the order in which its
  two loops meet them: field by field, and in a field from left to right.\<close>

definition field_tokens :: "string list \<Rightarrow> document \<Rightarrow> string list" where
  "field_tokens fs d =
     concat (map (\<lambda>field. case field_value d field of
                            None \<Rightarrow> []
                          | Some v \<Rightarrow> tokenize (Some (asArray_join v))) fs)"

text \<open>The occurrence count that the inverted index holds for a token and a document
  id: 0 when the token has no entry or the entry has no count for the id.\<close>

definition stored_count :: "(string \<times> docMap) list \<Rightarrow> string \<Rightarrow> string \<Rightarrow> nat" where
  "stored_count idx token i =
     (case map_of idx token of
        None \<Rightarrow> 0
      | Some docs \<Rightarrow> (case map_of docs i of None \<Rightarrow> 0 | Some c \<Rightarrow> c))"

text \<open>The document ids that the entry of a token holds.\<close>

definition indexed_ids :: "(string \<times> docMap) list \<Rightarrow> string \<Rightarrow> string set" where
  "indexed_ids idx token =
     (case map_of idx token of None \<Rightarrow> {} | Some docs \<Rightarrow> fst ` set docs)"

subsection \<open>Example data\<close>

text \<open>The two documents of the scenario in the specification, and three more.\<close>

definition doc_a :: document where
  "doc_a = no_attributes\<lparr>doc_id := Some ''a'', title := Some ''Hello World'',
     timestamp := Some 10\<rparr>"

definition doc_b :: document where
  "doc_b = no_attributes\<lparr>doc_id := Some ''b'', title := Some ''Hello There'',
     timestamp := Some 20\<rparr>"

definition doc_c :: document where
  "doc_c = no_attributes\<lparr>doc_id := Some ''c'', title := Some ''hello, hello!''\<rparr>"

definition doc_d :: document where
  "doc_d = no_attributes\<lparr>doc_id := Some ''d'', title := Some ''Hello again''\<rparr>"

definition doc_e :: document where
  "doc_e = no_attributes\<lparr>doc_id := Some ''e'', title := Some ''Hello blog'',
     timestamp := Some 0\<rparr>"

text \<open>An engine over the titles of the five documents.\<close>

definition example_engine :: state where
  "example_engine = snd (addAll (constructor (Some [''title'']))
     (Some [JObject doc_a, JObject doc_d, JObject doc_b, JObject doc_e, JObject doc_c]))"

text \<open>Three blog posts for prefix matching, and an engine over their titles.\<close>

definition doc_f :: document where
  "doc_f = no_attributes\<lparr>doc_id := Some ''f'', title := Some ''Blogging, hello''\<rparr>"

definition doc_g :: document where
  "doc_g = no_attributes\<lparr>doc_id := Some ''g'', title := Some ''Blogging tips, tips, tips''\<rparr>"

definition blog_engine :: state where
  "blog_engine = snd (addAll (constructor (Some [''title'']))
     (Some [JObject doc_e, JObject doc_f, JObject doc_g]))"

text \<open>A second version of the first document, under the same id.\<close>

definition doc_a_revised :: document where
  "doc_a_revised = doc_a\<lparr>title := Some ''Hello, hello''\<rparr>"

text \<open>The facet selects with the year 2024 chosen, with a language and a tag chosen
  and with nothing chosen, and three documents to filter.\<close>

definition year_2024 :: filterElements where
  "year_2024 = \<lparr>language_select = Some [], type_select = Some [],
     tag_select = Some [], year_select = Some ''2024''\<rparr>"

definition english_rust :: filterElements where
  "english_rust = \<lparr>language_select = Some ''en'', type_select = Some [],
     tag_select = Some ''rust'', year_select = None\<rparr>"

definition no_selects :: filterElements where
  "no_selects = \<lparr>language_select = None, type_select = Some [],
     tag_select = None, year_select = Some []\<rparr>"

definition post_2023 :: document where
  "post_2023 = no_attributes\<lparr>doc_id := Some ''p23'', language := Some ''en'',
     tags := Some [''go''], date_iso := Some ''2023-05-01T00:00:00Z''\<rparr>"

definition post_2024 :: document where
  "post_2024 = no_attributes\<lparr>doc_id := Some ''p24'', language := Some ''en'',
     tags := Some [''web'', ''rust''], date_iso := Some ''2024-01-01T00:00:00Z''\<rparr>"

definition post_greek :: document where
  "post_greek = no_attributes\<lparr>doc_id := Some ''el'', language := Some ''el'',
     tags := Some [''rust'']\<rparr>"

text \<open>Two documents that carry a score of their own, and an engine over their
  titles.\<close>

definition scored_g :: document where
  "scored_g = no_attributes\<lparr>doc_id := Some ''g'', title := Some ''Tips, tips, tips'',
     timestamp := Some 20, own_score := Some 1\<rparr>"

definition scored_h :: document where
  "scored_h = no_attributes\<lparr>doc_id := Some ''h'', title := Some ''Tips'',
     timestamp := Some 10, own_score := Some 5\<rparr>"

definition scored_engine :: state where
  "scored_engine = snd (addAll (constructor (Some [''title'']))
     (Some [JObject scored_g, JObject scored_h]))"

section \<open>Properties\<close>

subsection \<open>Adding documents\<close>

lemma addAll_loop_append:
  "addAll_loop s (pre @ rest) =
     (case addAll_loop s pre of
        (None, s') \<Rightarrow> addAll_loop s' rest
      | (Some e, s') \<Rightarrow> (Some e, s'))"
  by (induction pre arbitrary: s) (auto split: sum.splits)

text \<open>
  Claim C10. When \<^verbatim>\<open>add\<close> is called with an argument that is \<^verbatim>\<open>null\<close>,
  \<^verbatim>\<open>undefined\<close> or not an object, it returns without throwing and leaves the
  document store and the inverted index as they were; an object without id makes it
  throw.
\<close>

theorem add_ignores_non_objects:
  "(document = JNull \<or> document = JUndefined \<or> typeof document \<noteq> ''object''
      \<longrightarrow> add s document = Inr s)
   \<and> (doc_id d = None \<longrightarrow> add s (JObject d) = Inl MissingId)"
  by (cases document) (auto simp: add_def)

theorem add_ignores_non_objects_witness:
  "add (constructor (Some [''title''])) JNull = Inr (constructor (Some [''title'']))
   \<and> add (constructor (Some [''title''])) JUndefined = Inr (constructor (Some [''title'']))
   \<and> add (constructor (Some [''title''])) (JString ''post'')
       = Inr (constructor (Some [''title'']))
   \<and> add (constructor (Some [''title''])) (JNumber 7) = Inr (constructor (Some [''title'']))
   \<and> add (constructor (Some [''title''])) (JObject no_attributes) = Inl MissingId"
  using add_ignores_non_objects [of JNull "constructor (Some [''title''])" no_attributes]
    add_ignores_non_objects [of JUndefined "constructor (Some [''title''])" no_attributes]
    add_ignores_non_objects [of "JString ''post''" "constructor (Some [''title''])" no_attributes]
    add_ignores_non_objects [of "JNumber 7" "constructor (Some [''title''])" no_attributes]
  by (simp add: no_attributes_def)

text \<open>
  Claim C5. When \<^verbatim>\<open>add\<close> is called with a document whose id is \<^verbatim>\<open>undefined\<close> or
  \<^verbatim>\<open>null\<close>, it throws the missing-id error. Inside \<^verbatim>\<open>addAll\<close> the error is not
  caught: the bulk load stops at that document, with the engine in the state that
  the documents before it produced, whatever follows in the sequence.
\<close>

theorem add_missing_id_halts:
  assumes "doc_id d = None"
  shows "add s (JObject d) = Inl MissingId
    \<and> (addAll s (Some pre) = (None, s') \<longrightarrow>
         addAll s (Some (pre @ JObject d # post)) = (Some MissingId, s'))"
proof -
  have thrown: "add s'' (JObject d) = Inl MissingId" for s''
    using assms by (simp add: add_def)
  have "addAll_loop s (pre @ JObject d # post) = (Some MissingId, s')"
    if "addAll_loop s pre = (None, s')"
    using that by (simp add: addAll_loop_append thrown)
  with thrown show ?thesis
    by (simp add: addAll_def)
qed

theorem add_missing_id_halts_witness:
  "add (constructor (Some [''title''])) (JObject no_attributes) = Inl MissingId
   \<and> addAll (constructor (Some [''title'']))
        (Some ([JObject doc_a] @ JObject no_attributes # [JObject doc_b]))
      = (Some MissingId,
         \<lparr>field_names = [''title''],
          invertedIndex = [(''hello'', [(''a'', 1)]), (''world'', [(''a'', 1)])],
          documents = [(''a'', doc_a)]\<rparr>)"
proof -
  have none: "doc_id no_attributes = None"
    by (simp add: no_attributes_def)
  have pre: "addAll (constructor (Some [''title''])) (Some [JObject doc_a])
     = (None, \<lparr>field_names = [''title''],
          invertedIndex = [(''hello'', [(''a'', 1)]), (''world'', [(''a'', 1)])],
          documents = [(''a'', doc_a)]\<rparr>)"
    by code_simp
  show ?thesis
    using add_missing_id_halts
      [OF none, of "constructor (Some [''title''])" "[JObject doc_a]" _ "[JObject doc_b]"] pre
    by simp
qed

subsection \<open>The index after adding documents\<close>

lemma fold_index_field:
  "fold (index_field i d) fs idx = fold (count_token i) (field_tokens fs d) idx"
  by (induction fs arbitrary: idx)
    (auto simp: field_tokens_def index_field_def split: option.splits)

lemma stored_count_count_token:
  "stored_count (count_token i token idx) token' j
     = stored_count idx token' j + (if token' = token \<and> j = i then 1 else 0)"
  by (auto simp: stored_count_def count_token_def update_conv' Let_def split: option.splits)

lemma stored_count_fold:
  "stored_count (fold (count_token i) tokens idx) token j
     = stored_count idx token j + (if j = i then count_list tokens token else 0)"
  by (induction tokens arbitrary: idx) (auto simp: stored_count_count_token)

lemma indexed_ids_count_token:
  "indexed_ids (count_token i token idx) token'
     = indexed_ids idx token' \<union> (if token' = token then {i} else {})"
  by (auto simp: indexed_ids_def count_token_def update_conv' dom_update Let_def
      split: option.splits)

lemma indexed_ids_fold:
  "indexed_ids (fold (count_token i) tokens idx) token
     = indexed_ids idx token \<union> (if token \<in> set tokens then {i} else {})"
  by (induction tokens arbitrary: idx) (auto simp: indexed_ids_count_token)

lemma add_object:
  assumes "doc_id d = Some i"
  shows "add s (JObject d)
    = Inr (s\<lparr>documents := AList.update i d (documents s),
             invertedIndex := fold (count_token i) (field_tokens (field_names s) d)
                                (invertedIndex s)\<rparr>)"
  using assms by (simp add: add_def fold_index_field)

lemma add_object_cases:
  assumes "add s (JObject d) = Inr s'"
  obtains i where "doc_id d = Some i"
    and "s' = s\<lparr>documents := AList.update i d (documents s),
             invertedIndex := fold (count_token i) (field_tokens (field_names s) d)
                                (invertedIndex s)\<rparr>"
  using assms by (auto simp: add_def fold_index_field split: option.splits)

lemma find_append:
  "List.find P (xs @ ys) = (case List.find P xs of None \<Rightarrow> List.find P ys | Some x \<Rightarrow> Some x)"
  by (induction xs) auto

lemma addAll_loop_objects:
  assumes "addAll_loop s0 (map JObject ds) = (None, s)"
  shows "field_names s = field_names s0
    \<and> stored_count (invertedIndex s) token j
        = stored_count (invertedIndex s0) token j
          + (\<Sum>d\<leftarrow>ds. if doc_id d = Some j
                     then count_list (field_tokens (field_names s0) d) token else 0)
    \<and> indexed_ids (invertedIndex s) token
        = indexed_ids (invertedIndex s0) token
          \<union> {i. \<exists>d \<in> set ds. doc_id d = Some i \<and> token \<in> set (field_tokens (field_names s0) d)}
    \<and> map_of (documents s) j
        = (case List.find (\<lambda>d. doc_id d = Some j) (rev ds) of
             Some d \<Rightarrow> Some d
           | None \<Rightarrow> map_of (documents s0) j)"
  using assms
proof (induction ds arbitrary: s0)
  case Nil
  then show ?case by simp
next
  case (Cons d ds)
  from Cons.prems obtain s1 where s1: "add s0 (JObject d) = Inr s1"
    and rest: "addAll_loop s1 (map JObject ds) = (None, s)"
    by (auto split: sum.splits)
  from s1 obtain i where i: "doc_id d = Some i"
    and s1_eq: "s1 = s0\<lparr>documents := AList.update i d (documents s0),
             invertedIndex := fold (count_token i) (field_tokens (field_names s0) d)
                                (invertedIndex s0)\<rparr>"
    by (rule add_object_cases)
  have names: "field_names s1 = field_names s0"
    by (simp add: s1_eq)
  from Cons.IH [OF rest]
  have IH1: "field_names s = field_names s1"
    and IH2: "stored_count (invertedIndex s) token j
        = stored_count (invertedIndex s1) token j
          + (\<Sum>d\<leftarrow>ds. if doc_id d = Some j
                     then count_list (field_tokens (field_names s1) d) token else 0)"
    and IH3: "indexed_ids (invertedIndex s) token
        = indexed_ids (invertedIndex s1) token
          \<union> {i. \<exists>d \<in> set ds. doc_id d = Some i \<and> token \<in> set (field_tokens (field_names s1) d)}"
    and IH4: "map_of (documents s) j
        = (case List.find (\<lambda>d. doc_id d = Some j) (rev ds) of
             Some d \<Rightarrow> Some d
           | None \<Rightarrow> map_of (documents s1) j)"
    by blast+
  have c1: "stored_count (invertedIndex s1) token j
      = stored_count (invertedIndex s0) token j
        + (if j = i then count_list (field_tokens (field_names s0) d) token else 0)"
    by (simp add: s1_eq stored_count_fold)
  have k1: "indexed_ids (invertedIndex s1) token
      = indexed_ids (invertedIndex s0) token
        \<union> (if token \<in> set (field_tokens (field_names s0) d) then {i} else {})"
    by (simp add: s1_eq indexed_ids_fold)
  have d1: "map_of (documents s1) j = (if j = i then Some d else map_of (documents s0) j)"
    by (simp add: s1_eq update_conv')
  have g1: "field_names s = field_names s0"
    using IH1 names by simp
  have g2: "stored_count (invertedIndex s) token j
        = stored_count (invertedIndex s0) token j
          + (\<Sum>d\<leftarrow>d # ds. if doc_id d = Some j
                     then count_list (field_tokens (field_names s0) d) token else 0)"
    unfolding IH2 c1 names using i by simp
  have g3: "indexed_ids (invertedIndex s) token
        = indexed_ids (invertedIndex s0) token
          \<union> {i. \<exists>d \<in> set (d # ds). doc_id d = Some i
                  \<and> token \<in> set (field_tokens (field_names s0) d)}"
    unfolding IH3 k1 names using i by auto
  have g4: "map_of (documents s) j
        = (case List.find (\<lambda>d. doc_id d = Some j) (rev (d # ds)) of
             Some d \<Rightarrow> Some d
           | None \<Rightarrow> map_of (documents s0) j)"
    unfolding IH4 d1 using i by (simp add: find_append split: option.splits)
  from g1 g2 g3 g4 show ?case by blast
qed

lemma addAll_loop_succeeds:
  assumes "\<forall>d \<in> set ds. doc_id d \<noteq> None"
  shows "\<exists>s. addAll_loop s0 (map JObject ds) = (None, s)"
  using assms
proof (induction ds arbitrary: s0)
  case Nil
  then show ?case by simp
next
  case (Cons d ds)
  then obtain i where "doc_id d = Some i"
    by auto
  then obtain s1 where "add s0 (JObject d) = Inr s1"
    by (auto simp: add_object)
  with Cons show ?case
    by auto
qed

subsection \<open>The example engines\<close>

lemma example_engine_eq:
  "example_engine =
    \<lparr>field_names = [''title''],
     invertedIndex =
       [(''hello'', [(''a'', 1), (''d'', 1), (''b'', 1), (''e'', 1), (''c'', 2)]),
        (''world'', [(''a'', 1)]), (''again'', [(''d'', 1)]),
        (''there'', [(''b'', 1)]), (''blog'', [(''e'', 1)])],
     documents = [(''a'', doc_a), (''d'', doc_d), (''b'', doc_b), (''e'', doc_e), (''c'', doc_c)]\<rparr>"
  by code_simp

lemma scored_engine_eq:
  "scored_engine =
    \<lparr>field_names = [''title''],
     invertedIndex = [(''tips'', [(''g'', 3), (''h'', 1)])],
     documents = [(''g'', scored_g), (''h'', scored_h)]\<rparr>"
  by code_simp

lemma blog_engine_eq:
  "blog_engine =
    \<lparr>field_names = [''title''],
     invertedIndex =
       [(''hello'', [(''e'', 1), (''f'', 1)]), (''blog'', [(''e'', 1)]),
        (''blogging'', [(''f'', 1), (''g'', 1)]), (''tips'', [(''g'', 3)])],
     documents = [(''e'', doc_e), (''f'', doc_f), (''g'', doc_g)]\<rparr>"
  by code_simp

subsection \<open>Adding a document again\<close>

text \<open>
  Claim C8. Adding a document under an id that is already stored replaces the
  stored document (the store keeps its keys) and leaves the counts of the earlier
  add in the index: every count for the id grows by the number of occurrences of the
  token in the indexed fields of the new document.
\<close>

theorem readd_overwrites_and_accumulates:
  assumes "doc_id d = Some i" and "map_of (documents s) i = Some d0"
  shows "\<exists>s'. add s (JObject d) = Inr s'
    \<and> map_of (documents s') i = Some d
    \<and> map fst (documents s') = map fst (documents s)
    \<and> (\<forall>token. stored_count (invertedIndex s') token i
          = stored_count (invertedIndex s) token i
            + count_list (field_tokens (field_names s) d) token)"
proof -
  let ?s' = "s\<lparr>documents := AList.update i d (documents s),
             invertedIndex := fold (count_token i) (field_tokens (field_names s) d)
                                (invertedIndex s)\<rparr>"
  have "add s (JObject d) = Inr ?s'"
    using assms(1) by (rule add_object)
  moreover have "map_of (documents ?s') i = Some d"
    by (simp add: update_conv')
  moreover have "(i, d0) \<in> set (documents s)"
    using assms(2) by (rule map_of_SomeD)
  then have "i \<in> fst ` set (documents s)"
    by (rule rev_image_eqI) simp
  then have "map fst (documents ?s') = map fst (documents s)"
    by (simp add: update_keys)
  moreover have "\<forall>token. stored_count (invertedIndex ?s') token i
          = stored_count (invertedIndex s) token i
            + count_list (field_tokens (field_names s) d) token"
    by (simp add: stored_count_fold)
  ultimately show ?thesis
    by blast
qed

theorem readd_overwrites_and_accumulates_witness:
  "\<exists>s'. add example_engine (JObject doc_a_revised) = Inr s'
     \<and> map_of (documents s') ''a'' = Some doc_a_revised
     \<and> map fst (documents s') = [''a'', ''d'', ''b'', ''e'', ''c'']
     \<and> stored_count (invertedIndex example_engine) ''hello'' ''a'' = 1
     \<and> stored_count (invertedIndex s') ''hello'' ''a'' = 3"
proof -
  have i: "doc_id doc_a_revised = Some ''a''"
    by (simp add: doc_a_revised_def doc_a_def)
  have stored: "map_of (documents example_engine) ''a'' = Some doc_a"
    by (simp add: example_engine_eq)
  have keys: "map fst (documents example_engine) = [''a'', ''d'', ''b'', ''e'', ''c'']"
    by (simp add: example_engine_eq)
  have before: "stored_count (invertedIndex example_engine) ''hello'' ''a'' = 1"
    by (simp add: example_engine_eq stored_count_def)
  have tokens: "field_tokens (field_names example_engine) doc_a_revised = [''hello'', ''hello'']"
    by code_simp
  from readd_overwrites_and_accumulates [OF i stored]
  obtain s' where "add example_engine (JObject doc_a_revised) = Inr s'"
    and "map_of (documents s') ''a'' = Some doc_a_revised"
    and "map fst (documents s') = map fst (documents example_engine)"
    and "\<forall>token. stored_count (invertedIndex s') token ''a''
          = stored_count (invertedIndex example_engine) token ''a''
            + count_list (field_tokens (field_names example_engine) doc_a_revised) token"
    by blast
  then show ?thesis
    using keys before tokens by simp
qed

subsection \<open>Sorting\<close>

lemma with_score_simps [simp]:
  "score (with_score sc d) = (case own_score d of None \<Rightarrow> sc | Some own \<Rightarrow> own)"
  "timestamp (with_score sc d) = timestamp d"
  "doc_id (with_score sc d) = doc_id d"
  "own_score (with_score sc d) = own_score d"
  "document.truncate (with_score sc d) = d"
  by (simp_all add: with_score_def document.defs result.defs)

lemma timestamp_or_0_with_score [simp]:
  "timestamp_or_0 (with_score sc d) = timestamp_or_0 d"
  by (simp add: timestamp_or_0_def)

lemma mset_sort_insert: "mset (sort_insert cmp a bs) = add_mset a (mset bs)"
  by (induction bs) auto

lemma mset_array_sort: "mset (array_sort cmp xs) = mset xs"
  by (induction xs) (auto simp: mset_sort_insert)

lemma set_array_sort: "set (array_sort cmp xs) = set xs"
  using mset_array_sort [of cmp xs] by (metis set_mset_mset)

lemma set_sort_insert: "set (sort_insert cmp a bs) = insert a (set bs)"
  using mset_sort_insert [of cmp a bs] by (metis set_mset_mset set_mset_add_mset_insert)

lemma sorted_sort_insert:
  assumes trans: "\<And>x y z. cmp x y \<le> 0 \<Longrightarrow> cmp y z \<le> 0 \<Longrightarrow> cmp x z \<le> 0"
    and total: "\<And>x y. \<not> cmp x y \<le> 0 \<Longrightarrow> cmp y x \<le> 0"
    and "sorted_wrt (\<lambda>x y. cmp x y \<le> 0) bs"
  shows "sorted_wrt (\<lambda>x y. cmp x y \<le> 0) (sort_insert cmp a bs)"
  using assms(3)
proof (induction bs)
  case Nil
  then show ?case by simp
next
  case (Cons b bs)
  show ?case
  proof (cases "cmp a b \<le> 0")
    case True
    with Cons.prems show ?thesis
      by (auto intro: trans)
  next
    case False
    with Cons show ?thesis
      by (auto simp: set_sort_insert dest: total)
  qed
qed

lemma sorted_array_sort:
  assumes "\<And>x y z. cmp x y \<le> 0 \<Longrightarrow> cmp y z \<le> 0 \<Longrightarrow> cmp x z \<le> 0"
    and "\<And>x y. \<not> cmp x y \<le> 0 \<Longrightarrow> cmp y x \<le> 0"
  shows "sorted_wrt (\<lambda>x y. cmp x y \<le> 0) (array_sort cmp xs)"
  by (induction xs) (auto intro: sorted_sort_insert assms)



subsection \<open>The order of the results\<close>



lemma compare_timestamps_le:
  "compare_timestamps a b \<le> 0 \<longleftrightarrow> timestamp_or_0 b \<le> timestamp_or_0 a"
  by (auto simp: compare_timestamps_def Let_def)



lemma sorted_compare_timestamps:
  "sorted_wrt (\<lambda>a b. compare_timestamps a b \<le> 0) (array_sort compare_timestamps rs)"
  by (rule sorted_array_sort) (auto simp: compare_timestamps_le)




subsection \<open>Queries without tokens\<close>

lemma collectAll_loop_eq:
  "collectAll_loop filterFn ds = map (with_score 0) (filter (\<lambda>d. \<not> rejected filterFn d) ds)"
  by (induction ds) auto

lemma truncate_with_score: "document.truncate \<circ> with_score sc = (\<lambda>d. d)"
  by (rule ext) simp

lemma search_without_tokens:
  assumes "tokenize query = []"
  shows "mset (map document.truncate (search s query filterFn enablePrefix))
           = mset (filter (\<lambda>d. case filterFn of None \<Rightarrow> True | Some f \<Rightarrow> f d)
                     (map snd (documents s)))
    \<and> (\<forall>r \<in> set (search s query filterFn enablePrefix). own_score r = None \<longrightarrow> score r = 0)
    \<and> sorted_wrt (\<lambda>a b. timestamp_or_0 b \<le> timestamp_or_0 a)
         (search s query filterFn enablePrefix)"
proof -
  let ?ds = "filter (\<lambda>d. \<not> rejected filterFn d) (map snd (documents s))"
  have passes: "(\<lambda>d. \<not> rejected filterFn d) = (\<lambda>d. case filterFn of None \<Rightarrow> True | Some f \<Rightarrow> f d)"
    by (rule ext) (simp add: rejected_def split: option.splits)
  have eq: "search s query filterFn enablePrefix
      = array_sort compare_timestamps (map (with_score 0) ?ds)"
    using assms by (simp add: search_def collectAll_def collectAll_loop_eq)
  have "mset (map document.truncate (array_sort compare_timestamps (map (with_score 0) ?ds)))
      = mset ?ds"
    by (simp add: mset_array_sort multiset.map_comp comp_def)
  moreover have "\<forall>r \<in> set (array_sort compare_timestamps (map (with_score 0) ?ds)).
      own_score r = None \<longrightarrow> score r = 0"
    by (auto simp: set_array_sort)
  moreover have "sorted_wrt (\<lambda>a b. timestamp_or_0 b \<le> timestamp_or_0 a)
     (array_sort compare_timestamps (map (with_score 0) ?ds))"
    using sorted_compare_timestamps [of "map (with_score 0) ?ds"]
    by (simp add: compare_timestamps_le)
  ultimately show ?thesis
    unfolding eq passes by simp
qed

text \<open>
  Claim C7, amended. The empty string and \<^verbatim>\<open>null\<close> have no tokens. When the query
  has no tokens, \<^verbatim>\<open>search\<close> returns every stored document that passes the filter,
  each once, sorted by descending timestamp, a timestamp that is not a number
  counting as 0; a document that carries no score of its own is returned with score
  0.
\<close>

theorem search_empty_query_lists_all:
  "tokenize None = [] \<and> tokenize (Some []) = []
   \<and> (tokenize query = [] \<longrightarrow>
        mset (map document.truncate (search s query filterFn enablePrefix))
          = mset (filter (\<lambda>d. case filterFn of None \<Rightarrow> True | Some f \<Rightarrow> f d)
                    (map snd (documents s)))
        \<and> (\<forall>r \<in> set (search s query filterFn enablePrefix).
              own_score r = None \<longrightarrow> score r = 0)
        \<and> sorted_wrt (\<lambda>a b. timestamp_or_0 b \<le> timestamp_or_0 a)
             (search s query filterFn enablePrefix))"
proof -
  have "tokenize None = []" and "tokenize (Some []) = []"
    by (simp_all add: tokenize_def)
  moreover have "tokenize query = [] \<longrightarrow>
        mset (map document.truncate (search s query filterFn enablePrefix))
          = mset (filter (\<lambda>d. case filterFn of None \<Rightarrow> True | Some f \<Rightarrow> f d)
                    (map snd (documents s)))
        \<and> (\<forall>r \<in> set (search s query filterFn enablePrefix).
              own_score r = None \<longrightarrow> score r = 0)
        \<and> sorted_wrt (\<lambda>a b. timestamp_or_0 b \<le> timestamp_or_0 a)
             (search s query filterFn enablePrefix)"
    by (rule impI) (rule search_without_tokens)
  ultimately show ?thesis
    by (intro conjI)
qed

theorem search_empty_query_lists_all_witness:
  "map doc_id (search example_engine None None False)
     = [Some ''b'', Some ''a'', Some ''d'', Some ''e'', Some ''c'']
   \<and> map own_score (search example_engine (Some []) None True)
       = [None, None, None, None, None]
   \<and> map score (search example_engine (Some []) None True) = [0, 0, 0, 0, 0]
   \<and> mset (map document.truncate (search example_engine (Some []) None True))
       = mset (map snd (documents example_engine))
   \<and> sorted_wrt (\<lambda>a b. timestamp_or_0 b \<le> timestamp_or_0 a)
       (search example_engine None None False)"
proof -
  have ids: "map doc_id (search example_engine None None False)
     = [Some ''b'', Some ''a'', Some ''d'', Some ''e'', Some ''c'']"
    by code_simp
  have own: "map own_score (search example_engine (Some []) None True)
       = [None, None, None, None, None]"
    by code_simp
  have scores: "map score (search example_engine (Some []) None True) = [0, 0, 0, 0, 0]"
    by code_simp
  show ?thesis
    using search_empty_query_lists_all [of None example_engine None False]
      search_empty_query_lists_all [of "Some []" example_engine None True] ids own scores
    by simp
qed

text \<open>The claim as it was stated fails where a stored document carries a score of
  its own: the two documents of \<open>scored_engine\<close> are listed with the scores 1 and 5,
  not 0.\<close>

theorem search_empty_query_lists_all_counterexample:
  "tokenize (Some []) = []
   \<and> map doc_id (search scored_engine (Some []) None False) = [Some ''g'', Some ''h'']
   \<and> map score (search scored_engine (Some []) None False) = [1, 5]"
proof -
  have "tokenize (Some []) = []"
    by (simp add: tokenize_def)
  moreover have "map doc_id (search scored_engine (Some []) None False)
      = [Some ''g'', Some ''h'']"
    by code_simp
  moreover have "map score (search scored_engine (Some []) None False) = [1, 5]"
    by code_simp
  ultimately show ?thesis
    by (intro conjI)
qed

subsection \<open>Terms without a match\<close>

lemma lookupTerm_empty:
  assumes "\<not> enablePrefix \<longrightarrow> term \<notin> fst ` set (invertedIndex s)"
    and "enablePrefix \<longrightarrow> (\<forall>token \<in> fst ` set (invertedIndex s). \<not> startsWith token term)"
  shows "lookupTerm s term enablePrefix = []"
proof (cases enablePrefix)
  case True
  with assms(2) show ?thesis
    by (auto simp: lookupTerm_def filter_empty_conv)
next
  case False
  with assms(1) have "map_of (invertedIndex s) term = None"
    by (simp add: map_of_eq_None_iff)
  with False show ?thesis
    by (simp add: lookupTerm_def)
qed

text \<open>
  Claim C1. When the query has tokens and one of them has no entry in the index (no
  token equal to it when prefix matching is off, no token starting with it when
  prefix matching is on), \<^verbatim>\<open>search\<close> returns the empty list, whatever the other
  terms match.
\<close>

theorem search_empty_when_a_term_has_no_match:
  assumes "term \<in> set (tokenize query)"
    and "\<not> enablePrefix \<longrightarrow> term \<notin> fst ` set (invertedIndex s)"
    and "enablePrefix \<longrightarrow> (\<forall>token \<in> fst ` set (invertedIndex s). \<not> startsWith token term)"
  shows "search s query filterFn enablePrefix = []"
proof -
  have "lookupTerm s term enablePrefix = []"
    using assms(2,3) by (rule lookupTerm_empty)
  with assms(1) have "list_ex (\<lambda>grp. length grp = 0)
      (map (\<lambda>term. lookupTerm s term enablePrefix) (tokenize query))"
    by (auto simp: list_ex_iff intro: rev_image_eqI)
  moreover have "tokenize query \<noteq> []"
    using assms(1) by auto
  ultimately show ?thesis
    by (simp add: search_def Let_def)
qed

theorem search_empty_when_a_term_has_no_match_witness:
  "search example_engine (Some ''hello zebra'') None False = []
   \<and> search example_engine (Some ''hello zeb'') None True = []
   \<and> length (search example_engine (Some ''hello'') None False) = 5"
proof -
  have t1: "''zebra'' \<in> set (tokenize (Some ''hello zebra''))"
    by code_simp
  have t2: "''zeb'' \<in> set (tokenize (Some ''hello zeb''))"
    by code_simp
  have exact: "''zebra'' \<notin> fst ` set (invertedIndex example_engine)"
    by (simp add: example_engine_eq)
  have pre: "\<forall>token \<in> fst ` set (invertedIndex example_engine). \<not> startsWith token ''zeb''"
    by (simp add: example_engine_eq)
  have others: "length (search example_engine (Some ''hello'') None False) = 5"
    by code_simp
  show ?thesis
    using search_empty_when_a_term_has_no_match [OF t1, of False example_engine None]
      search_empty_when_a_term_has_no_match [OF t2, of True example_engine None]
      exact pre others
    by simp
qed

subsection \<open>Matching and intersection\<close>

lemma set_fold_set_add: "set (fold set_add xs acc) = set acc \<union> set xs"
  by (induction xs arbitrary: acc) (auto simp: set_add_def)

lemma distinct_fold_set_add: "distinct acc \<Longrightarrow> distinct (fold set_add xs acc)"
  by (induction xs arbitrary: acc) (auto simp: set_add_def)

lemma set_group_fold:
  "set (fold (\<lambda>match ids. fold set_add (map fst (snd match)) ids) grp acc)
     = set acc \<union> (\<Union>m \<in> set grp. fst ` set (snd m))"
  by (induction grp arbitrary: acc) (auto simp: set_fold_set_add)

lemma distinct_group_fold:
  "distinct acc \<Longrightarrow> distinct (fold (\<lambda>match ids. fold set_add (map fst (snd match)) ids) grp acc)"
  by (induction grp arbitrary: acc) (auto simp: distinct_fold_set_add)

lemma set_group_ids: "set (group_ids grp) = (\<Union>m \<in> set grp. fst ` set (snd m))"
  by (simp add: group_ids_def set_group_fold)

lemma distinct_group_ids: "distinct (group_ids grp)"
  by (simp add: group_ids_def distinct_group_fold)

lemma intersection_loop_Some:
  "intersection_loop (Some acc) groups
     = Some (filter (\<lambda>i. \<forall>grp \<in> set groups. i \<in> set (group_ids grp)) acc)"
proof (induction groups arbitrary: acc)
  case Nil
  then show ?case by simp
next
  case (Cons grp groups)
  let ?next = "filter (\<lambda>i. i \<in> set (group_ids grp)) acc"
  show ?case
  proof (cases "?next = []")
    case True
    then have "filter (\<lambda>i. \<forall>g \<in> set (grp # groups). i \<in> set (group_ids g)) acc = []"
      by (auto simp: filter_empty_conv)
    with True show ?thesis by simp
  next
    case False
    have "filter (\<lambda>i. \<forall>g \<in> set groups. i \<in> set (group_ids g)) ?next
        = filter (\<lambda>i. \<forall>g \<in> set (grp # groups). i \<in> set (group_ids g)) acc"
      by (auto intro: filter_cong)
    with False Cons.IH [of ?next] show ?thesis by simp
  qed
qed

lemma intersection_Cons:
  "intersection (grp # groups)
     = filter (\<lambda>i. \<forall>g \<in> set groups. i \<in> set (group_ids g)) (group_ids grp)"
proof (cases "group_ids grp = []")
  case True
  then show ?thesis by (simp add: intersection_def)
next
  case False
  then show ?thesis by (simp add: intersection_def intersection_loop_Some)
qed

lemma set_intersection:
  assumes "groups \<noteq> []"
  shows "set (intersection groups) = (\<Inter>grp \<in> set groups. set (group_ids grp))"
proof -
  from assms obtain grp rest where "groups = grp # rest"
    by (cases groups) auto
  then show ?thesis
    by (auto simp: intersection_Cons)
qed

lemma set_search_loop:
  "set (search_loop s filterFn groups ids)
     = {with_score (int (scoreDocument i groups)) d | i d.
          i \<in> set ids \<and> map_of (documents s) i = Some d \<and> \<not> rejected filterFn d}"
  by (induction ids) (auto split: option.splits)

lemma search_nonempty_query:
  assumes "tokenize query \<noteq> []"
  shows "set (search s query filterFn enablePrefix)
    = set (search_loop s filterFn (map (\<lambda>term. lookupTerm s term enablePrefix) (tokenize query))
        (intersection (map (\<lambda>term. lookupTerm s term enablePrefix) (tokenize query))))"
proof -
  let ?groups = "map (\<lambda>term. lookupTerm s term enablePrefix) (tokenize query)"
  have groups: "?groups \<noteq> []"
    using assms by simp
  show ?thesis
  proof (cases "list_ex (\<lambda>grp. length grp = 0) ?groups")
    case True
    then obtain grp where "grp \<in> set ?groups" "grp = []"
      by (auto simp: list_ex_iff)
    then have "group_ids grp = []" "grp \<in> set ?groups"
      by (simp_all add: group_ids_def)
    then have "set (intersection ?groups) = {}"
      unfolding set_intersection [OF groups] by force
    then have "intersection ?groups = []"
      by simp
    with True assms show ?thesis
      by (simp add: search_def Let_def)
  next
    case False
    with assms show ?thesis
      by (auto simp: search_def Let_def set_array_sort)
  qed
qed

lemma passes_filter:
  "(\<not> rejected filterFn d) = (case filterFn of None \<Rightarrow> True | Some f \<Rightarrow> f d)"
  by (simp add: rejected_def split: option.splits)

lemma truncate_search_loop:
  "document.truncate ` set (search_loop s filterFn groups ids)
     = {d. \<exists>i \<in> set ids. map_of (documents s) i = Some d \<and> \<not> rejected filterFn d}"
proof (induction ids)
  case Nil
  then show ?case by simp
next
  case (Cons i ids)
  show ?case
  proof (cases "map_of (documents s) i")
    case None
    with Cons show ?thesis by auto
  next
    case (Some d)
    show ?thesis
    proof (cases "rejected filterFn d")
      case True
      with Some Cons show ?thesis by auto
    next
      case False
      with Some Cons show ?thesis by auto
    qed
  qed
qed

text \<open>
  Claim C6. With prefix matching, a query term matches every entry of the index
  whose token starts with the term. The document ids of all entries that one term
  matches are united, and the unions of all terms are intersected: the ids in the
  intersection are the candidates, and the documents returned are the stored
  documents of the candidates that pass the filter.
\<close>

theorem prefix_matches_united_then_intersected:
  assumes "tokenize query \<noteq> []"
  shows "(\<forall>term. set (lookupTerm s term True)
            = {(token, docs). (token, docs) \<in> set (invertedIndex s) \<and> startsWith token term})
    \<and> set (intersection (map (\<lambda>term. lookupTerm s term True) (tokenize query)))
        = (\<Inter>term \<in> set (tokenize query).
             \<Union>(token, docs) \<in> set (lookupTerm s term True). fst ` set docs)
    \<and> document.truncate ` set (search s query filterFn True)
        = {d. \<exists>i \<in> (\<Inter>term \<in> set (tokenize query).
                        \<Union>(token, docs) \<in> set (lookupTerm s term True). fst ` set docs).
                map_of (documents s) i = Some d
                \<and> (case filterFn of None \<Rightarrow> True | Some f \<Rightarrow> f d)}"
proof -
  let ?groups = "map (\<lambda>term. lookupTerm s term True) (tokenize query)"
  let ?candidates = "\<Inter>term \<in> set (tokenize query).
             \<Union>(token, docs) \<in> set (lookupTerm s term True). fst ` set docs"
  have matches: "set (lookupTerm s t True)
      = {(token, docs). (token, docs) \<in> set (invertedIndex s) \<and> startsWith token t}" for t
    by (auto simp: lookupTerm_def)
  have "?groups \<noteq> []"
    using assms by simp
  then have "set (intersection ?groups) = (\<Inter>grp \<in> set ?groups. set (group_ids grp))"
    by (rule set_intersection)
  also have "\<dots> = ?candidates"
    by (simp add: set_group_ids case_prod_unfold)
  finally have candidates: "set (intersection ?groups) = ?candidates" .
  have results: "document.truncate ` set (search s query filterFn True)
      = {d. \<exists>i \<in> ?candidates. map_of (documents s) i = Some d
                \<and> (case filterFn of None \<Rightarrow> True | Some f \<Rightarrow> f d)}"
    by (simp only: search_nonempty_query [OF assms] truncate_search_loop candidates passes_filter)
  from matches candidates results show ?thesis
    by (intro conjI allI)
qed

theorem prefix_matches_united_then_intersected_witness:
  "map fst (lookupTerm blog_engine ''blo'' True) = [''blog'', ''blogging'']
   \<and> intersection (map (\<lambda>term. lookupTerm blog_engine term True) (tokenize (Some ''blo hel'')))
       = [''e'', ''f'']
   \<and> set (intersection
         (map (\<lambda>term. lookupTerm blog_engine term True) (tokenize (Some ''blo hel''))))
       = (\<Inter>term \<in> set (tokenize (Some ''blo hel'')).
            \<Union>(token, docs) \<in> set (lookupTerm blog_engine term True). fst ` set docs)
   \<and> map doc_id (search blog_engine (Some ''blo hel'') None True) = [Some ''e'', Some ''f'']"
proof -
  have tokens: "tokenize (Some ''blo hel'') \<noteq> []"
    by code_simp
  have matches: "map fst (lookupTerm blog_engine ''blo'' True) = [''blog'', ''blogging'']"
    by code_simp
  have candidates:
    "intersection (map (\<lambda>term. lookupTerm blog_engine term True) (tokenize (Some ''blo hel'')))
       = [''e'', ''f'']"
    by code_simp
  have results: "map doc_id (search blog_engine (Some ''blo hel'') None True)
       = [Some ''e'', Some ''f'']"
    by code_simp
  from prefix_matches_united_then_intersected [OF tokens, of blog_engine None]
  have "set (intersection
         (map (\<lambda>term. lookupTerm blog_engine term True) (tokenize (Some ''blo hel''))))
       = (\<Inter>term \<in> set (tokenize (Some ''blo hel'')).
            \<Union>(token, docs) \<in> set (lookupTerm blog_engine term True). fst ` set docs)"
    by (rule conjunct1 [OF conjunct2])
  with matches candidates results show ?thesis
    by (intro conjI)
qed

subsection \<open>Scores\<close>

lemma fold_match_counts:
  "fold (\<lambda>match sc. (case map_of (snd match) i of
                        Some c \<Rightarrow> if c \<noteq> 0 then sc + c else sc
                      | None \<Rightarrow> sc)) grp sc
     = sc + (\<Sum>m\<leftarrow>grp. case map_of (snd m) i of None \<Rightarrow> 0 | Some c \<Rightarrow> c)"
  for sc :: nat
  by (induction grp arbitrary: sc) (auto split: option.splits)

lemma fold_group_counts:
  "fold (\<lambda>grp sc. sc + f grp) groups sc = sc + (\<Sum>grp\<leftarrow>groups. f grp)" for f :: "'a \<Rightarrow> nat"
  by (induction groups arbitrary: sc) auto

lemma scoreDocument_sum:
  "scoreDocument i groups
     = (\<Sum>grp\<leftarrow>groups. \<Sum>m\<leftarrow>grp. case map_of (snd m) i of None \<Rightarrow> 0 | Some c \<Rightarrow> c)"
  by (simp add: scoreDocument_def fold_match_counts fold_group_counts)

lemma scoreDocument_terms:
  "scoreDocument i (map (\<lambda>term. lookupTerm s term enablePrefix) terms)
     = (\<Sum>term\<leftarrow>terms. \<Sum>(token, docs)\<leftarrow>lookupTerm s term enablePrefix.
          case map_of docs i of None \<Rightarrow> 0 | Some c \<Rightarrow> c)"
  by (simp add: scoreDocument_sum comp_def case_prod_unfold)

lemma singleton_list:
  assumes "distinct xs" "set xs = {x}"
  shows "xs = [x]"
proof (cases xs)
  case Nil
  with assms show ?thesis by simp
next
  case (Cons a as)
  with assms have "a = x" and "set as \<subseteq> {x}" and "x \<notin> set as"
    by auto
  then have "as = []"
    by (cases as) auto
  with Cons \<open>a = x\<close> show ?thesis by simp
qed

lemma filter_doc_id:
  assumes "distinct (map doc_id ds)" "D \<in> set ds" "doc_id D = Some i"
  shows "filter (\<lambda>d. doc_id d = Some i) ds = [D]"
proof (rule singleton_list)
  from assms(1) have dist: "distinct ds"
    by (simp only: distinct_map)
  from assms(1) have inj: "inj_on doc_id (set ds)"
    by (simp only: distinct_map)
  from dist show "distinct (filter (\<lambda>d. doc_id d = Some i) ds)"
    by (rule distinct_filter)
  have uniq: "d = D" if "d \<in> set ds" "doc_id d = Some i" for d
  proof -
    from that(2) assms(3) have eq: "doc_id d = doc_id D"
      by (simp only:)
    from inj eq that(1) assms(2) show ?thesis
      by (rule inj_onD)
  qed
  show "set (filter (\<lambda>d. doc_id d = Some i) ds) = {D}"
  proof (rule set_eqI)
    fix d
    show "d \<in> set (filter (\<lambda>d. doc_id d = Some i) ds) \<longleftrightarrow> d \<in> {D}"
      using uniq [of d] assms(2,3) by (simp only: set_filter mem_Collect_eq singleton_iff) blast
  qed
qed

lemma find_filter: "List.find P xs = (case filter P xs of [] \<Rightarrow> None | y # ys \<Rightarrow> Some y)"
  by (induction xs) simp_all

lemma sum_list_filter:
  "(\<Sum>y\<leftarrow>xs. if P y then f y else 0) = (\<Sum>y\<leftarrow>filter P xs. f y)" for f :: "'a \<Rightarrow> nat"
  by (induction xs) simp_all

lemma search_single_exact_term:
  assumes query: "tokenize query = [token]"
    and entry: "map_of (invertedIndex s) token = Some docs"
    and ids: "fst ` set docs = {i}"
    and doc: "map_of (documents s) i = Some D"
    and passes: "\<not> rejected filterFn D"
  shows "search s query filterFn False
    = [with_score (int (stored_count (invertedIndex s) token i)) D]"
proof -
  have lookup: "lookupTerm s token False = [(token, docs)]"
    using entry by (simp add: lookupTerm_def)
  have "set (group_ids [(token, docs)]) = {i}"
    using ids by (simp add: set_group_ids)
  with distinct_group_ids have group: "group_ids [(token, docs)] = [i]"
    by (rule singleton_list)
  have candidates: "intersection [[(token, docs)]] = [i]"
    by (simp add: intersection_Cons group)
  have score: "scoreDocument i [[(token, docs)]] = stored_count (invertedIndex s) token i"
    by (simp add: scoreDocument_sum stored_count_def entry)
  show ?thesis
    using doc passes
    by (simp add: search_def query lookup candidates score)
qed

lemma bulk_load_single_token:
  assumes ids: "\<forall>d \<in> set ds. doc_id d \<noteq> None"
    and dist: "distinct (map doc_id ds)"
    and D: "D \<in> set ds"
    and query: "tokenize query = [token]"
    and tok: "token \<in> set (field_tokens fs D)"
    and only: "\<forall>d \<in> set ds. d \<noteq> D \<longrightarrow> token \<notin> set (field_tokens fs d)"
    and passes: "case filterFn of None \<Rightarrow> True | Some f \<Rightarrow> f D"
  shows "\<exists>s'. addAll (constructor (Some fs)) (Some (map JObject ds)) = (None, s')
          \<and> search s' query filterFn False
              = [with_score (int (count_list (field_tokens fs D) token)) D]"
proof -
  let ?s0 = "constructor (Some fs)"
  from addAll_loop_succeeds [OF ids] obtain s'
    where loaded: "addAll_loop ?s0 (map JObject ds) = (None, s')"
    by blast
  from ids D obtain i where i: "doc_id D = Some i"
    by auto
  have s0: "field_names ?s0 = fs" "invertedIndex ?s0 = []" "documents ?s0 = []"
    by (simp_all add: constructor_def)
  have only_D: "filter (\<lambda>d. doc_id d = Some i) ds = [D]"
    using dist D i by (rule filter_doc_id)
  note facts = addAll_loop_objects [OF loaded, of token i, unfolded s0]
  have count: "stored_count (invertedIndex s') token i = count_list (field_tokens fs D) token"
    using facts by (simp add: stored_count_def sum_list_filter only_D)
  have "indexed_ids (invertedIndex s') token
      = {j. \<exists>d \<in> set ds. doc_id d = Some j \<and> token \<in> set (field_tokens fs d)}"
    using facts by (simp add: indexed_ids_def)
  also have "\<dots> = {i}"
  proof (rule set_eqI)
    fix j
    have "j = i" if "d \<in> set ds" "doc_id d = Some j" "token \<in> set (field_tokens fs d)" for d
    proof -
      from only that(1,3) have "d = D" by blast
      with that(2) i show ?thesis by (simp only: option.inject)
    qed
    with D i tok show "j \<in> {j. \<exists>d \<in> set ds. doc_id d = Some j
        \<and> token \<in> set (field_tokens fs d)} \<longleftrightarrow> j \<in> {i}"
      by (simp only: mem_Collect_eq singleton_iff) blast
  qed
  finally have "indexed_ids (invertedIndex s') token = {i}" .
  then obtain docs where entry: "map_of (invertedIndex s') token = Some docs"
    and docs: "fst ` set docs = {i}"
    by (auto simp: indexed_ids_def split: option.splits)
  have "map_of (documents s') i = Some D"
    using facts by (simp add: find_filter only_D flip: rev_filter)
  moreover have "\<not> rejected filterFn D"
    using passes by (simp only: passes_filter)
  ultimately have "search s' query filterFn False
      = [with_score (int (stored_count (invertedIndex s') token i)) D]"
    using query entry docs by (intro search_single_exact_term)
  with loaded count show ?thesis
    by (simp add: addAll_def)
qed

text \<open>The results of a query with tokens, with the score that \<^verbatim>\<open>scoreDocument\<close>
  computes written as the sum of the stored counts.\<close>

lemma search_results:
  assumes "tokenize query \<noteq> []"
  shows "set (search s query filterFn enablePrefix)
        = {with_score
             (int (\<Sum>term\<leftarrow>tokenize query. \<Sum>(token, docs)\<leftarrow>lookupTerm s term enablePrefix.
                case map_of docs i of None \<Rightarrow> 0 | Some c \<Rightarrow> c)) d | i d.
             i \<in> set (intersection
                        (map (\<lambda>term. lookupTerm s term enablePrefix) (tokenize query)))
             \<and> map_of (documents s) i = Some d
             \<and> (case filterFn of None \<Rightarrow> True | Some f \<Rightarrow> f d)}"
proof -
  have "set (search s query filterFn enablePrefix)
      = set (search_loop s filterFn
               (map (\<lambda>term. lookupTerm s term enablePrefix) (tokenize query))
               (intersection (map (\<lambda>term. lookupTerm s term enablePrefix) (tokenize query))))"
    using assms by (rule search_nonempty_query)
  also have "\<dots> = {with_score
             (int (scoreDocument i
                (map (\<lambda>term. lookupTerm s term enablePrefix) (tokenize query))))
             d | i d.
             i \<in> set (intersection
                        (map (\<lambda>term. lookupTerm s term enablePrefix) (tokenize query)))
             \<and> map_of (documents s) i = Some d \<and> \<not> rejected filterFn d}"
    by (rule set_search_loop)
  finally show ?thesis
    by (simp only: scoreDocument_terms passes_filter)
qed

text \<open>
  Claim C2, amended. For a query with tokens, every document that survives the
  intersection, passes the filter and carries no score of its own is returned with
  a score that is the sum, over the query terms and over the index entries a term
  resolved to, of the count that the entry holds for the document (0 when it holds
  none); and every result without a score of its own is such a document with that
  score. In particular, after a bulk load of documents with distinct ids, a query
  that is one exact term, a token that occurs in the indexed fields of the document
  \<open>D\<close> only, returns \<open>D\<close> alone; when \<open>D\<close> carries no score of its own, its score is
  the number of occurrences of the token in the indexed fields of \<open>D\<close>.
\<close>

theorem search_score_is_sum_of_counts:
  "(tokenize query \<noteq> [] \<longrightarrow>
      (\<forall>i d. i \<in> set (intersection
                        (map (\<lambda>term. lookupTerm s term enablePrefix) (tokenize query)))
             \<and> map_of (documents s) i = Some d
             \<and> (case filterFn of None \<Rightarrow> True | Some f \<Rightarrow> f d)
             \<and> own_score d = None \<longrightarrow>
         (\<exists>r \<in> set (search s query filterFn enablePrefix).
             document.truncate r = d
             \<and> score r
                 = int (\<Sum>term\<leftarrow>tokenize query. \<Sum>(token, docs)\<leftarrow>lookupTerm s term enablePrefix.
                     case map_of docs i of None \<Rightarrow> 0 | Some c \<Rightarrow> c)))
      \<and> (\<forall>r \<in> set (search s query filterFn enablePrefix). own_score r = None \<longrightarrow>
         (\<exists>i \<in> set (intersection
                        (map (\<lambda>term. lookupTerm s term enablePrefix) (tokenize query))).
             map_of (documents s) i = Some (document.truncate r)
             \<and> score r
                 = int (\<Sum>term\<leftarrow>tokenize query. \<Sum>(token, docs)\<leftarrow>lookupTerm s term enablePrefix.
                     case map_of docs i of None \<Rightarrow> 0 | Some c \<Rightarrow> c))))
   \<and> ((\<forall>d \<in> set ds. doc_id d \<noteq> None) \<and> distinct (map doc_id ds) \<and> D \<in> set ds
       \<and> tokenize query = [token] \<and> token \<in> set (field_tokens fs D)
       \<and> (\<forall>d \<in> set ds. d \<noteq> D \<longrightarrow> token \<notin> set (field_tokens fs d))
       \<and> (case filterFn of None \<Rightarrow> True | Some f \<Rightarrow> f D)
       \<and> own_score D = None \<longrightarrow>
      (\<exists>s' r. addAll (constructor (Some fs)) (Some (map JObject ds)) = (None, s')
          \<and> search s' query filterFn False = [r]
          \<and> document.truncate r = D
          \<and> score r = int (count_list (field_tokens fs D) token)))"
proof -
  let ?sum = "\<lambda>i. int (\<Sum>term\<leftarrow>tokenize query. \<Sum>(token, docs)\<leftarrow>lookupTerm s term enablePrefix.
                     case map_of docs i of None \<Rightarrow> 0 | Some c \<Rightarrow> c)"
  let ?candidates = "set (intersection
                        (map (\<lambda>term. lookupTerm s term enablePrefix) (tokenize query)))"
  have general:
    "(\<forall>i d. i \<in> ?candidates \<and> map_of (documents s) i = Some d
             \<and> (case filterFn of None \<Rightarrow> True | Some f \<Rightarrow> f d) \<and> own_score d = None \<longrightarrow>
         (\<exists>r \<in> set (search s query filterFn enablePrefix).
             document.truncate r = d \<and> score r = ?sum i))
      \<and> (\<forall>r \<in> set (search s query filterFn enablePrefix). own_score r = None \<longrightarrow>
         (\<exists>i \<in> ?candidates. map_of (documents s) i = Some (document.truncate r)
             \<and> score r = ?sum i))"
    if nonempty: "tokenize query \<noteq> []"
  proof (intro conjI allI ballI impI)
    fix i d
    assume "i \<in> ?candidates \<and> map_of (documents s) i = Some d
             \<and> (case filterFn of None \<Rightarrow> True | Some f \<Rightarrow> f d) \<and> own_score d = None"
    then have "with_score (?sum i) d \<in> set (search s query filterFn enablePrefix)"
      and none: "own_score d = None"
      unfolding search_results [OF nonempty] by blast+
    moreover have "document.truncate (with_score (?sum i) d) = d"
      by (rule with_score_simps)
    moreover have "score (with_score (?sum i) d) = ?sum i"
      using none by (simp only: with_score_simps option.case)
    ultimately show "\<exists>r \<in> set (search s query filterFn enablePrefix).
             document.truncate r = d \<and> score r = ?sum i"
      by blast
  next
    fix r
    assume "r \<in> set (search s query filterFn enablePrefix)" and own: "own_score r = None"
    then obtain i d where r: "r = with_score (?sum i) d" and i: "i \<in> ?candidates"
      and d: "map_of (documents s) i = Some d"
      unfolding search_results [OF nonempty] by blast
    have "own_score d = None"
      using own unfolding r by (simp only: with_score_simps)
    then have "score r = ?sum i"
      unfolding r by (simp only: with_score_simps option.case)
    moreover have "document.truncate r = d"
      unfolding r by (rule with_score_simps)
    ultimately show "\<exists>i \<in> ?candidates. map_of (documents s) i = Some (document.truncate r)
             \<and> score r = ?sum i"
      using i d by blast
  qed
  have particular: "\<exists>s' r. addAll (constructor (Some fs)) (Some (map JObject ds)) = (None, s')
          \<and> search s' query filterFn False = [r]
          \<and> document.truncate r = D
          \<and> score r = int (count_list (field_tokens fs D) token)"
    if hyps: "(\<forall>d \<in> set ds. doc_id d \<noteq> None) \<and> distinct (map doc_id ds) \<and> D \<in> set ds
       \<and> tokenize query = [token] \<and> token \<in> set (field_tokens fs D)
       \<and> (\<forall>d \<in> set ds. d \<noteq> D \<longrightarrow> token \<notin> set (field_tokens fs d))
       \<and> (case filterFn of None \<Rightarrow> True | Some f \<Rightarrow> f D)
       \<and> own_score D = None"
  proof -
    let ?r = "with_score (int (count_list (field_tokens fs D) token)) D"
    from hyps have none: "own_score D = None"
      by blast
    from hyps have "\<exists>s'. addAll (constructor (Some fs)) (Some (map JObject ds)) = (None, s')
          \<and> search s' query filterFn False = [?r]"
      by (elim conjE) (rule bulk_load_single_token)
    moreover have "document.truncate ?r = D"
      by (rule with_score_simps)
    moreover have "score ?r = int (count_list (field_tokens fs D) token)"
      using none by (simp only: with_score_simps option.case)
    ultimately show ?thesis
      by blast
  qed
  from general particular show ?thesis
    by blast
qed

theorem search_score_is_sum_of_counts_witness:
  "map document.truncate (search blog_engine (Some ''tips'') None False) = [doc_g]
   \<and> map score (search blog_engine (Some ''tips'') None False) = [3]
   \<and> map score (search blog_engine (Some ''blo hel'') None True) = [2, 2]
   \<and> (\<exists>r \<in> set (search blog_engine (Some ''blo hel'') None True).
         document.truncate r = doc_e \<and> score r = 2)"
proof -
  note claim = search_score_is_sum_of_counts
    [of "Some ''blo hel''" blog_engine True None "[doc_e, doc_f, doc_g]" doc_g "''tips''" "[''title'']"]
  note claim' = search_score_is_sum_of_counts
    [of "Some ''tips''" blog_engine True None "[doc_e, doc_f, doc_g]" doc_g "''tips''" "[''title'']"]
  have tokens: "tokenize (Some ''blo hel'') \<noteq> []"
    by code_simp
  have scores: "map score (search blog_engine (Some ''blo hel'') None True) = [2, 2]"
    by code_simp
  have candidate: "''e'' \<in> set (intersection
      (map (\<lambda>term. lookupTerm blog_engine term True) (tokenize (Some ''blo hel''))))"
    by code_simp
  have stored: "map_of (documents blog_engine) ''e'' = Some doc_e"
    by (simp add: blog_engine_eq)
  have none_e: "own_score doc_e = None" and none_g: "own_score doc_g = None"
    by (simp_all add: doc_e_def doc_g_def no_attributes_def)
  have sum: "int (\<Sum>term\<leftarrow>tokenize (Some ''blo hel'').
      \<Sum>(token, docs)\<leftarrow>lookupTerm blog_engine term True.
        case map_of docs ''e'' of None \<Rightarrow> 0 | Some c \<Rightarrow> c) = 2"
    by code_simp
  have ids: "\<forall>d \<in> set [doc_e, doc_f, doc_g]. doc_id d \<noteq> None"
    by (simp add: doc_e_def doc_f_def doc_g_def)
  have dist: "distinct (map doc_id [doc_e, doc_f, doc_g])"
    by (simp add: doc_e_def doc_f_def doc_g_def)
  have query: "tokenize (Some ''tips'') = [''tips'']"
    by code_simp
  have tok_e: "field_tokens [''title''] doc_e = [''hello'', ''blog'']"
    by code_simp
  have tok_f: "field_tokens [''title''] doc_f = [''blogging'', ''hello'']"
    by code_simp
  have tok_g: "field_tokens [''title''] doc_g = [''blogging'', ''tips'', ''tips'', ''tips'']"
    by code_simp
  have only: "\<forall>d \<in> set [doc_e, doc_f, doc_g]. d \<noteq> doc_g
      \<longrightarrow> ''tips'' \<notin> set (field_tokens [''title''] d)"
    by (simp add: tok_e tok_f)
  have count: "int (count_list (field_tokens [''title''] doc_g) ''tips'') = 3"
    by (simp add: tok_g)
  have "\<exists>s' r. addAll (constructor (Some [''title'']))
              (Some (map JObject [doc_e, doc_f, doc_g])) = (None, s')
          \<and> search s' (Some ''tips'') None False = [r]
          \<and> document.truncate r = doc_g
          \<and> score r = int (count_list (field_tokens [''title''] doc_g) ''tips'')"
    using claim' ids dist query only none_g by (simp add: tok_g)
  then have single: "map document.truncate (search blog_engine (Some ''tips'') None False)
      = [doc_g]
    \<and> map score (search blog_engine (Some ''tips'') None False) = [3]"
    unfolding count by (auto simp: blog_engine_def)
  from claim tokens candidate stored none_e
  have "\<exists>r \<in> set (search blog_engine (Some ''blo hel'') None True).
         document.truncate r = doc_e
         \<and> score r = int (\<Sum>term\<leftarrow>tokenize (Some ''blo hel'').
              \<Sum>(token, docs)\<leftarrow>lookupTerm blog_engine term True.
                case map_of docs ''e'' of None \<Rightarrow> 0 | Some c \<Rightarrow> c)"
    by simp
  then have "\<exists>r \<in> set (search blog_engine (Some ''blo hel'') None True).
         document.truncate r = doc_e \<and> score r = 2"
    unfolding sum .
  with single scores show ?thesis
    by (intro conjI) blast+
qed

text \<open>The claim as it was stated fails where a document carries a score of its
  own. In \<open>scored_engine\<close> the document \<open>g\<close> survives the query \<open>tips\<close> and the index
  holds the count 3 for it, but its result has the score 1 that the document
  carries; the document \<open>h\<close>, with the count 1, has the score 5.\<close>

theorem search_score_is_sum_of_counts_counterexample:
  "tokenize (Some ''tips'') = [''tips'']
   \<and> lookupTerm scored_engine ''tips'' False = [(''tips'', [(''g'', 3), (''h'', 1)])]
   \<and> intersection [lookupTerm scored_engine ''tips'' False] = [''g'', ''h'']
   \<and> map doc_id (search scored_engine (Some ''tips'') None False) = [Some ''h'', Some ''g'']
   \<and> map score (search scored_engine (Some ''tips'') None False) = [5, 1]"
proof -
  have "tokenize (Some ''tips'') = [''tips'']"
    by code_simp
  moreover have "lookupTerm scored_engine ''tips'' False
      = [(''tips'', [(''g'', 3), (''h'', 1)])]"
    by code_simp
  moreover have "intersection [lookupTerm scored_engine ''tips'' False] = [''g'', ''h'']"
    by code_simp
  moreover have "map doc_id (search scored_engine (Some ''tips'') None False)
      = [Some ''h'', Some ''g'']"
    by code_simp
  moreover have "map score (search scored_engine (Some ''tips'') None False) = [5, 1]"
    by code_simp
  ultimately show ?thesis
    by (intro conjI)
qed

subsection \<open>The facet filter\<close>

text \<open>
  Claim C9. The facet predicate accepts a document exactly when every filter that
  is set matches it: a set language equals the language of the document; a set type
  equals its type, an absent type counting as the empty string; a set tag is among
  its tags; a set year equals the first four characters of its \<open>date_iso\<close>. A filter
  is set when its select is on the page and has a value other than the empty string;
  with no filter set every document is accepted.
\<close>

theorem filterDocument_iff_set_filters_match:
  "(filterDocument fe (JObject d) \<longleftrightarrow>
      (\<forall>l. language_select fe = Some l \<and> l \<noteq> [] \<longrightarrow> language d = Some l)
    \<and> (\<forall>t. type_select fe = Some t \<and> t \<noteq> [] \<longrightarrow>
           (case type d of None \<Rightarrow> [] | Some x \<Rightarrow> x) = t)
    \<and> (\<forall>g. tag_select fe = Some g \<and> g \<noteq> [] \<longrightarrow> (\<exists>ts. tags d = Some ts \<and> g \<in> set ts))
    \<and> (\<forall>y. year_select fe = Some y \<and> y \<noteq> [] \<longrightarrow>
           take 4 (case date_iso d of None \<Rightarrow> [] | Some x \<Rightarrow> x) = y))
   \<and> (language_select fe \<in> {None, Some []} \<and> type_select fe \<in> {None, Some []}
       \<and> tag_select fe \<in> {None, Some []} \<and> year_select fe \<in> {None, Some []}
       \<longrightarrow> filterDocument fe (JObject d))"
proof -
  have language: "(selected (language_select fe) \<and> language d \<noteq> language_select fe)
      \<longleftrightarrow> \<not> (\<forall>l. language_select fe = Some l \<and> l \<noteq> [] \<longrightarrow> language d = Some l)"
    by (cases "language_select fe") (auto simp: selected_def)
  have type: "(selected (type_select fe) \<and> or_empty (type d) \<noteq> or_empty (type_select fe))
      \<longleftrightarrow> \<not> (\<forall>t. type_select fe = Some t \<and> t \<noteq> [] \<longrightarrow>
           (case type d of None \<Rightarrow> [] | Some x \<Rightarrow> x) = t)"
    by (cases "type_select fe") (auto simp: selected_def or_empty_def)
  have tag: "(selected (tag_select fe)
        \<and> \<not> (case tags d of None \<Rightarrow> False | Some ts \<Rightarrow> or_empty (tag_select fe) \<in> set ts))
      \<longleftrightarrow> \<not> (\<forall>g. tag_select fe = Some g \<and> g \<noteq> [] \<longrightarrow> (\<exists>ts. tags d = Some ts \<and> g \<in> set ts))"
    by (cases "tag_select fe"; cases "tags d") (auto simp: selected_def or_empty_def)
  have year: "(selected (year_select fe)
        \<and> (case date_iso d of None \<Rightarrow> [] | Some v \<Rightarrow> if v \<noteq> [] then take 4 v else [])
            \<noteq> or_empty (year_select fe))
      \<longleftrightarrow> \<not> (\<forall>y. year_select fe = Some y \<and> y \<noteq> [] \<longrightarrow>
           take 4 (case date_iso d of None \<Rightarrow> [] | Some x \<Rightarrow> x) = y)"
    by (cases "year_select fe"; cases "date_iso d") (auto simp: selected_def or_empty_def)
  have "filterDocument fe (JObject d) \<longleftrightarrow>
      \<not> (selected (language_select fe) \<and> language d \<noteq> language_select fe)
    \<and> \<not> (selected (type_select fe) \<and> or_empty (type d) \<noteq> or_empty (type_select fe))
    \<and> \<not> (selected (tag_select fe)
        \<and> \<not> (case tags d of None \<Rightarrow> False | Some ts \<Rightarrow> or_empty (tag_select fe) \<in> set ts))
    \<and> \<not> (selected (year_select fe)
        \<and> (case date_iso d of None \<Rightarrow> [] | Some v \<Rightarrow> if v \<noteq> [] then take 4 v else [])
            \<noteq> or_empty (year_select fe))"
    by (simp add: filterDocument_def Let_def)
  then have iff: "filterDocument fe (JObject d) \<longleftrightarrow>
      (\<forall>l. language_select fe = Some l \<and> l \<noteq> [] \<longrightarrow> language d = Some l)
    \<and> (\<forall>t. type_select fe = Some t \<and> t \<noteq> [] \<longrightarrow>
           (case type d of None \<Rightarrow> [] | Some x \<Rightarrow> x) = t)
    \<and> (\<forall>g. tag_select fe = Some g \<and> g \<noteq> [] \<longrightarrow> (\<exists>ts. tags d = Some ts \<and> g \<in> set ts))
    \<and> (\<forall>y. year_select fe = Some y \<and> y \<noteq> [] \<longrightarrow>
           take 4 (case date_iso d of None \<Rightarrow> [] | Some x \<Rightarrow> x) = y)"
    unfolding language type tag year by (simp only: not_not)
  have "filterDocument fe (JObject d)"
    if "language_select fe \<in> {None, Some []} \<and> type_select fe \<in> {None, Some []}
       \<and> tag_select fe \<in> {None, Some []} \<and> year_select fe \<in> {None, Some []}"
    unfolding iff using that by auto
  with iff show ?thesis
    by blast
qed

theorem filterDocument_iff_set_filters_match_witness:
  "\<not> filterDocument year_2024 (JObject post_2023)
   \<and> filterDocument year_2024 (JObject post_2024)
   \<and> filterDocument english_rust (JObject post_2024)
   \<and> \<not> filterDocument english_rust (JObject post_2023)
   \<and> \<not> filterDocument english_rust (JObject post_greek)
   \<and> filterDocument no_selects (JObject post_greek)"
  using filterDocument_iff_set_filters_match [of year_2024 post_2023]
    filterDocument_iff_set_filters_match [of year_2024 post_2024]
    filterDocument_iff_set_filters_match [of english_rust post_2024]
    filterDocument_iff_set_filters_match [of english_rust post_2023]
    filterDocument_iff_set_filters_match [of english_rust post_greek]
    filterDocument_iff_set_filters_match [of no_selects post_greek]
  by (simp add: year_2024_def english_rust_def no_selects_def post_2023_def post_2024_def
      post_greek_def no_attributes_def)

subsection \<open>Highlighting\<close>

lemma highlightText_without_tokens:
  "highlightText text None = escapeHtml (or_empty text)"
  "highlightText text (Some []) = escapeHtml (or_empty text)"
  by (simp_all add: highlightText_def)

lemma highlightText_blank:
  "trim (or_empty text) = [] \<Longrightarrow> highlightText text tokens = escapeHtml (or_empty text)"
  by (simp add: highlightText_def Let_def split: option.splits)

text \<open>The pattern of a token also matches inside the markers that an earlier token
  has left in the text.\<close>

lemma highlightText_marks_its_own_markup:
  "highlightText (Some ''hello mark'') (Some [''hello'', ''mark''])
     = ''<<mark>mark</mark>>hello</<mark>mark</mark>> <mark>mark</mark>''"
  by code_simp

text \<open>
  Claim C4. \<^verbatim>\<open>highlightText\<close> escapes the text first and then wraps the matches of
  each token, whatever their case, the longest token first; with no tokens, or with
  a blank text, it returns the escaped text. The claim adds that with the tokens
  \<open>blog\<close> and \<open>blogging\<close> the word \<open>blogging\<close> is not wrapped twice. There the source
  wraps \<open>blogging\<close> and then runs the pattern of \<open>blog\<close> over the text it has just
  produced, markup included: the word ends up inside two nested markers.
\<close>

theorem highlightText_nests_markers:
  "highlightText (Some ''blogging'') (Some [''blog'', ''blogging''])
     = ''<mark><mark>blog</mark>ging</mark>''"
  by code_simp

end
